theory Spec2Isabelle
  imports Main
begin

section \<open>Python values and errors\<close>

text \<open>
  The exceptions the modelled code can raise: a missing dictionary key, an index out of
  range, \<open>list.remove\<close> of an absent element or a response body that is not JSON, and a
  subscript on a JSON value that is not an object.
\<close>

datatype py_error = KeyError | IndexError | ValueError | TypeError

text \<open>
  The nested predicates \<open>valid_region\<close> and \<open>valid_service\<close> return \<open>True\<close>, \<open>False\<close>, or
  fall off their end and return \<open>None\<close>. Their callers only test the result with \<open>if\<close>.
\<close>

datatype py_bool = PyTrue | PyFalse | PyNone

fun truthy :: "py_bool \<Rightarrow> bool" where
  "truthy PyTrue = True"
| "truthy PyFalse = False"
| "truthy PyNone = False"

text \<open>\<open>xs[0]\<close>: raises \<open>IndexError\<close> on an empty list.\<close>

fun first :: "'a list \<Rightarrow> py_error + 'a" where
  "first [] = Inl IndexError"
| "first (x # xs) = Inr x"

text \<open>\<open>xs.remove(x)\<close>: drops the first element equal to \<open>x\<close>, \<open>ValueError\<close> if there is none.\<close>

fun list_remove :: "'a \<Rightarrow> 'a list \<Rightarrow> py_error + 'a list" where
  "list_remove x [] = Inl ValueError"
| "list_remove x (y # ys) =
     (if y = x then Inr ys
      else (case list_remove x ys of Inl e \<Rightarrow> Inl e | Inr zs \<Rightarrow> Inr (y # zs)))"

section \<open>The feed and the store of list objects\<close>

text \<open>One element of \<open>payload['prefixes']\<close>; the payload is the list of these, in feed order.\<close>

record RawPrefixRecord =
  ip_prefix :: string
  region :: string
  service :: string

text \<open>
  The lists built by \<open>merge_prefixes\<close> are shared objects: every tuple of one prefix holds
  the same list, and \<open>filter_amazon\<close> changes it in place. A list value is therefore a
  reference into a store; \<open>next_ref\<close> is the next unused reference.
\<close>

type_synonym ref = nat

record heap =
  cells :: "ref \<Rightarrow> string list"
  next_ref :: ref

definition empty_heap :: heap where
  "empty_heap = \<lparr>cells = (\<lambda>_. []), next_ref = 0\<rparr>"

text \<open>The expression \<open>[]\<close>: a new, empty list object.\<close>

definition new_list :: "heap \<Rightarrow> ref \<times> heap" where
  "new_list h =
     (next_ref h, h\<lparr>cells := (cells h)(next_ref h := []), next_ref := Suc (next_ref h)\<rparr>)"

text \<open>\<open>xs.append(x)\<close>, in place.\<close>

definition list_append :: "heap \<Rightarrow> ref \<Rightarrow> string \<Rightarrow> heap" where
  "list_append h a x = h\<lparr>cells := (cells h)(a := cells h a @ [x])\<rparr>"

text \<open>
  \<open>d.setdefault(k, [])\<close>: the list stored under \<open>k\<close>, after storing a new empty one when
  \<open>k\<close> is absent. (The fresh list that Python builds and drops when \<open>k\<close> is present is
  not allocated here; nothing can observe it.)
\<close>

type_synonym dict = "string \<rightharpoonup> ref"

definition setdefault :: "dict \<Rightarrow> string \<Rightarrow> heap \<Rightarrow> ref \<times> dict \<times> heap" where
  "setdefault d k h =
     (case d k of
        Some a \<Rightarrow> (a, d, h)
      | None \<Rightarrow> (case new_list h of (a, h') \<Rightarrow> (a, d(k \<mapsto> a), h')))"

section \<open>filter_amazon\<close>

text \<open>
  Removes \<open>'AMAZON'\<close> from the list object in place when the list has more than one
  element and contains it, and returns the same object.
\<close>

definition filter_amazon :: "heap \<Rightarrow> ref \<Rightarrow> py_error + (ref \<times> heap)" where
  "filter_amazon h services =
     (if length (cells h services) > 1 \<and> ''AMAZON'' \<in> set (cells h services) then
        (case list_remove ''AMAZON'' (cells h services) of
           Inl e \<Rightarrow> Inl e
         | Inr xs \<Rightarrow> Inr (services, h\<lparr>cells := (cells h)(services := xs)\<rparr>))
      else Inr (services, h))"

section \<open>merge_prefixes\<close>

text \<open>
  The body of the first loop, for one record of the feed: the record's region goes to the
  end of the list under its prefix in \<open>regions\<close>, its service to the end of the list under
  its prefix in \<open>services\<close>.
\<close>

fun absorb :: "RawPrefixRecord \<Rightarrow> dict \<times> dict \<times> heap \<Rightarrow> dict \<times> dict \<times> heap" where
  "absorb p (regions, services, h) =
     (case setdefault regions (ip_prefix p) h of (rs, regions1, h1) \<Rightarrow>
      (case setdefault services (ip_prefix p) (list_append h1 rs (region p)) of
         (ss, services1, h2) \<Rightarrow>
           (regions1(ip_prefix p \<mapsto> rs),
            services1(ip_prefix p \<mapsto> ss),
            list_append h2 ss (service p))))"

fun accumulate :: "RawPrefixRecord list \<Rightarrow> dict \<times> dict \<times> heap \<Rightarrow> dict \<times> dict \<times> heap" where
  "accumulate [] st = st"
| "accumulate (p # ps) st = accumulate ps (absorb p st)"

text \<open>
  The second loop: one tuple per record of the feed, holding the prefix and the two list
  objects found under it. A dictionary subscript raises \<open>KeyError\<close> on a missing key.
\<close>

type_synonym prefix_tuple = "string \<times> ref \<times> ref"

fun emit :: "dict \<Rightarrow> dict \<Rightarrow> RawPrefixRecord list \<Rightarrow> prefix_tuple list
    \<Rightarrow> py_error + prefix_tuple list" where
  "emit regions services [] merged = Inr merged"
| "emit regions services (p # ps) merged =
     (case regions (ip_prefix p) of
        None \<Rightarrow> Inl KeyError
      | Some rs \<Rightarrow>
          (case services (ip_prefix p) of
             None \<Rightarrow> Inl KeyError
           | Some ss \<Rightarrow> emit regions services ps (merged @ [(ip_prefix p, rs, ss)])))"

definition merge_prefixes :: "RawPrefixRecord list \<Rightarrow> py_error + (prefix_tuple list \<times> heap)" where
  "merge_prefixes payload =
     (case accumulate payload (Map.empty, Map.empty, empty_heap) of
        (regions, services, h) \<Rightarrow>
          (case emit regions services payload [] of
             Inl e \<Rightarrow> Inl e
           | Inr merged \<Rightarrow> Inr (merged, h)))"

section \<open>The annotations command\<close>

text \<open>
  The option lists \<open>includes\<close>, \<open>excludes\<close> and \<open>regions\<close> after \<open>if not xs: xs = []\<close>;
  an option that was not given is the empty list.
\<close>

record FilterPolicy =
  includes_opt :: "string list"
  excludes_opt :: "string list"
  regions_opt :: "string list"

definition no_filters :: FilterPolicy where
  "no_filters = \<lparr>includes_opt = [], excludes_opt = [], regions_opt = []\<rparr>"

fun valid_region_loop :: "string list \<Rightarrow> string list \<Rightarrow> py_bool" where
  "valid_region_loop [] rs = PyNone"
| "valid_region_loop (r # rest) rs = (if r \<in> set rs then PyTrue else valid_region_loop rest rs)"

definition valid_region :: "FilterPolicy \<Rightarrow> string list \<Rightarrow> py_bool" where
  "valid_region pol rs = (if regions_opt pol = [] then PyTrue else valid_region_loop (regions_opt pol) rs)"

fun valid_service_includes :: "string list \<Rightarrow> string list \<Rightarrow> py_bool" where
  "valid_service_includes [] ss = PyNone"
| "valid_service_includes (i # rest) ss =
     (if i \<in> set ss then PyTrue else valid_service_includes rest ss)"

fun valid_service_excludes :: "string list \<Rightarrow> string list \<Rightarrow> string list \<Rightarrow> py_bool" where
  "valid_service_excludes [] incs ss =
     (if incs = [] then PyTrue else valid_service_includes incs ss)"
| "valid_service_excludes (e # rest) incs ss =
     (if e \<in> set ss then PyFalse else valid_service_excludes rest incs ss)"

definition valid_service :: "FilterPolicy \<Rightarrow> string list \<Rightarrow> py_bool" where
  "valid_service pol ss = valid_service_excludes (excludes_opt pol) (includes_opt pol) ss"

type_synonym AnnotationRow = "string \<times> string \<times> string \<times> string"

text \<open>
  The loop over the merged tuples. The predicates read the list objects as they are when
  the tuple is reached, so after the removals done for earlier tuples.
\<close>

fun project :: "FilterPolicy \<Rightarrow> prefix_tuple list \<Rightarrow> heap \<Rightarrow> AnnotationRow list
    \<Rightarrow> py_error + (AnnotationRow list \<times> heap)" where
  "project pol [] h filtered = Inr (filtered, h)"
| "project pol ((ip, rs, ss) # rest) h filtered =
     (if truthy (valid_region pol (cells h rs)) then
        (if truthy (valid_service pol (cells h ss)) then
           (case filter_amazon h ss of
              Inl e \<Rightarrow> Inl e
            | Inr (ss', h') \<Rightarrow>
                (case first (cells h' rs) of
                   Inl e \<Rightarrow> Inl e
                 | Inr r \<Rightarrow>
                     (case first (cells h' ss') of
                        Inl e \<Rightarrow> Inl e
                      | Inr s \<Rightarrow> project pol rest h' (filtered @ [(ip, ''AWS'', r, s)]))))
         else project pol rest h filtered)
      else project pol rest h filtered)"

text \<open>The rows that \<open>annotations\<close> hands to \<open>annotate\<close> for upload.\<close>

definition annotations :: "RawPrefixRecord list \<Rightarrow> FilterPolicy \<Rightarrow> py_error + AnnotationRow list" where
  "annotations payload pol =
     (case merge_prefixes payload of
        Inl e \<Rightarrow> Inl e
      | Inr (merged, h) \<Rightarrow>
          (case project pol merged h [] of
             Inl e \<Rightarrow> Inl e
           | Inr (filtered, h') \<Rightarrow> Inr filtered))"

section \<open>The create_scopes command\<close>

text \<open>
  The body posted to \<open>/app_scopes\<close>. The REST client is not part of the program: it is a
  parameter, a function from the requests made so far and the next request to the response.
  Of a response the code could read the status (\<open>resp.ok\<close>) and the JSON body; of the body
  it reads only \<open>resp.json()["id"]\<close>.
\<close>

record scope_request =
  short_name :: string
  query_type :: string
  query_field :: string
  query_value :: string
  parent_app_scope_id :: string

datatype json_body = NotJson | JsonNotObject | JsonWithoutId | JsonWithId string

record response =
  ok :: bool
  body :: json_body

type_synonym api = "scope_request list \<Rightarrow> scope_request \<Rightarrow> response"

text \<open>What a run does to the outside: the posts it made and the lines it printed.\<close>

record world =
  calls :: "scope_request list"
  printed :: "string list"

definition start :: world where
  "start = \<lparr>calls = [], printed = []\<rparr>"

definition post :: "api \<Rightarrow> scope_request \<Rightarrow> world \<Rightarrow> response \<times> world" where
  "post client req w = (client (calls w) req, w\<lparr>calls := calls w @ [req]\<rparr>)"

text \<open>
  \<open>resp.json()["id"]\<close>: \<open>ValueError\<close> when the body is not JSON, \<open>TypeError\<close> when it is
  JSON but not an object, \<open>KeyError\<close> when the object has no \<open>id\<close>.
\<close>

definition json_id :: "response \<Rightarrow> py_error + string" where
  "json_id resp =
     (case body resp of
        NotJson \<Rightarrow> Inl ValueError
      | JsonNotObject \<Rightarrow> Inl TypeError
      | JsonWithoutId \<Rightarrow> Inl KeyError
      | JsonWithId i \<Rightarrow> Inr i)"

definition service_request :: "string \<Rightarrow> scope_request" where
  "service_request root_scope_id =
     \<lparr>short_name = ''AWS'', query_type = ''eq'', query_field = ''user_SaaS Provider'',
      query_value = ''AWS'', parent_app_scope_id = root_scope_id\<rparr>"

definition region_request :: "string \<Rightarrow> string \<Rightarrow> scope_request" where
  "region_request service_scope_id r =
     \<lparr>short_name = r, query_type = ''eq'', query_field = ''user_SaaS Region'',
      query_value = r, parent_app_scope_id = service_scope_id\<rparr>"

definition component_request :: "string \<Rightarrow> string \<Rightarrow> scope_request" where
  "component_request region_scope_id s =
     \<lparr>short_name = s, query_type = ''eq'', query_field = ''user_SaaS Component'',
      query_value = s, parent_app_scope_id = region_scope_id\<rparr>"

definition create_service_scope :: "api \<Rightarrow> string \<Rightarrow> world \<Rightarrow> (py_error + string) \<times> world" where
  "create_service_scope client root_scope_id w =
     (case post client (service_request root_scope_id) w of (resp, w') \<Rightarrow> (json_id resp, w'))"

definition create_region_scope ::
    "api \<Rightarrow> string \<Rightarrow> string \<Rightarrow> world \<Rightarrow> (py_error + string) \<times> world" where
  "create_region_scope client service_scope_id r w =
     (case post client (region_request service_scope_id r) w of (resp, w') \<Rightarrow> (json_id resp, w'))"

text \<open>The response of the component call is dropped.\<close>

definition create_component_scope :: "api \<Rightarrow> string \<Rightarrow> string \<Rightarrow> world \<Rightarrow> world" where
  "create_component_scope client region_scope_id s w =
     (case post client (component_request region_scope_id s) w of (resp, w') \<Rightarrow> w')"

text \<open>
  The predicates nested in \<open>create_scopes\<close> have the names of those in \<open>annotations\<close> and
  compare one name with \<open>==\<close>.
\<close>

fun scopes_valid_region_loop :: "string list \<Rightarrow> string \<Rightarrow> py_bool" where
  "scopes_valid_region_loop [] r = PyNone"
| "scopes_valid_region_loop (x # rest) r =
     (if x = r then PyTrue else scopes_valid_region_loop rest r)"

definition scopes_valid_region :: "FilterPolicy \<Rightarrow> string \<Rightarrow> py_bool" where
  "scopes_valid_region pol r =
     (if regions_opt pol = [] then PyTrue else scopes_valid_region_loop (regions_opt pol) r)"

fun scopes_valid_service_includes :: "string list \<Rightarrow> string \<Rightarrow> py_bool" where
  "scopes_valid_service_includes [] s = PyNone"
| "scopes_valid_service_includes (i # rest) s =
     (if i = s then PyTrue else scopes_valid_service_includes rest s)"

fun scopes_valid_service_excludes :: "string list \<Rightarrow> string list \<Rightarrow> string \<Rightarrow> py_bool" where
  "scopes_valid_service_excludes [] incs s =
     (if incs = [] then PyTrue else scopes_valid_service_includes incs s)"
| "scopes_valid_service_excludes (e # rest) incs s =
     (if e = s then PyFalse else scopes_valid_service_excludes rest incs s)"

definition scopes_valid_service :: "FilterPolicy \<Rightarrow> string \<Rightarrow> py_bool" where
  "scopes_valid_service pol s =
     scopes_valid_service_excludes (excludes_opt pol) (includes_opt pol) s"

text \<open>
  \<open>extract_regions_and_services\<close>: a dictionary from region to the set of its services.
  Python 2 iterates a dictionary and a set in hash order, so the loops of \<open>create_scopes\<close>
  run over some enumeration of the index without repetition; \<open>iteration_of\<close> says that a
  list of pairs is one.
\<close>

type_synonym RegionServiceIndex = "string \<rightharpoonup> string set"

fun extract_regions_and_services :: "RawPrefixRecord list \<Rightarrow> RegionServiceIndex \<Rightarrow> RegionServiceIndex" where
  "extract_regions_and_services [] idx = idx"
| "extract_regions_and_services (p # ps) idx =
     extract_regions_and_services ps
       (idx(region p \<mapsto> insert (service p) (case idx (region p) of None \<Rightarrow> {} | Some ss \<Rightarrow> ss)))"

definition iteration_of :: "RegionServiceIndex \<Rightarrow> (string \<times> string list) list \<Rightarrow> bool" where
  "iteration_of idx items \<longleftrightarrow>
     distinct (map fst items) \<and> set (map fst items) = dom idx \<and>
     (\<forall>(r, ss) \<in> set items. distinct ss \<and> idx r = Some (set ss))"

text \<open>The inner loop, \<open>for service in services\<close>. Python 2's \<open>print '', service\<close> writes a space
  and the name.\<close>

fun component_loop :: "api \<Rightarrow> FilterPolicy \<Rightarrow> string \<Rightarrow> string list \<Rightarrow> world \<Rightarrow> world" where
  "component_loop client pol region_scope_id [] w = w"
| "component_loop client pol region_scope_id (s # rest) w =
     (if truthy (scopes_valid_service pol s) then
        component_loop client pol region_scope_id rest
          (create_component_scope client region_scope_id s (w\<lparr>printed := printed w @ ['' '' @ s]\<rparr>))
      else component_loop client pol region_scope_id rest w)"

text \<open>The outer loop, \<open>for region, services in regions_and_services.items()\<close>. No exception is
  caught anywhere: one raised by \<open>create_region_scope\<close> ends the run.\<close>

fun region_loop :: "api \<Rightarrow> FilterPolicy \<Rightarrow> string \<Rightarrow> (string \<times> string list) list \<Rightarrow> world
    \<Rightarrow> (py_error + unit) \<times> world" where
  "region_loop client pol service_scope_id [] w = (Inr (), w)"
| "region_loop client pol service_scope_id ((r, ss) # rest) w =
     (if truthy (scopes_valid_region pol r) then
        (case create_region_scope client service_scope_id r (w\<lparr>printed := printed w @ [r]\<rparr>) of
           (Inl e, w') \<Rightarrow> (Inl e, w')
         | (Inr region_scope_id, w') \<Rightarrow>
             region_loop client pol service_scope_id rest
               (component_loop client pol region_scope_id ss w'))
      else region_loop client pol service_scope_id rest w)"

text \<open>
  The body of the function \<open>create_scopes\<close>, as it runs when the function is called with a
  context: \<open>client\<close> is \<open>ctx.obj['api']\<close>, \<open>pol\<close> holds the option lists of \<open>ctx.obj\<close>, and
  \<open>items\<close> is the index in the order in which the loops iterate it.
\<close>

definition create_scopes :: "api \<Rightarrow> FilterPolicy \<Rightarrow> string \<Rightarrow> (string \<times> string list) list \<Rightarrow> world
    \<Rightarrow> (py_error + unit) \<times> world" where
  "create_scopes client pol root_scope_id items w =
     (case create_service_scope client root_scope_id w of
        (Inl e, w') \<Rightarrow> (Inl e, w')
      | (Inr service_scope_id, w') \<Rightarrow> region_loop client pol service_scope_id items w')"

text \<open>
  How click runs a command. A callback decorated with \<open>@click.pass_context\<close>, as
  \<open>annotations\<close> is, gets the context as its first argument. \<open>create_scopes\<close> takes \<open>ctx\<close>
  as its first parameter but is declared without that decorator, so click calls it with
  the keyword argument \<open>root_scope_id\<close> alone: Python raises \<open>TypeError\<close> for the missing
  \<open>ctx\<close> before the body starts, and the command makes no request at all. What is proved
  below about \<open>create_scopes\<close> is about its body, reached only by calling the function
  with a context.
\<close>

definition click_invoke :: "bool \<Rightarrow> (world \<Rightarrow> (py_error + unit) \<times> world) \<Rightarrow> world
    \<Rightarrow> (py_error + unit) \<times> world" where
  "click_invoke pass_context callback w =
     (if pass_context then callback w else (Inl TypeError, w))"

definition create_scopes_command :: "api \<Rightarrow> FilterPolicy \<Rightarrow> string
    \<Rightarrow> (string \<times> string list) list \<Rightarrow> world \<Rightarrow> (py_error + unit) \<times> world" where
  "create_scopes_command client pol root_scope_id items w =
     click_invoke False (create_scopes client pol root_scope_id items) w"

section \<open>The inputs of the scenarios\<close>

definition scenario_feed :: "RawPrefixRecord list" where
  "scenario_feed =
     [\<lparr>ip_prefix = ''3.5.0.0/16'', region = ''us-east-1'', service = ''AMAZON''\<rparr>,
      \<lparr>ip_prefix = ''3.5.0.0/16'', region = ''us-east-1'', service = ''S3''\<rparr>]"

text \<open>Three records of one prefix \<open>k\<close> and one region \<open>r\<close>, with the services \<open>AMAZON\<close>,
  \<open>AMAZON\<close>, \<open>S3\<close> in feed order.\<close>

definition three_feed :: "string \<Rightarrow> string \<Rightarrow> RawPrefixRecord list" where
  "three_feed k r =
     [\<lparr>ip_prefix = k, region = r, service = ''AMAZON''\<rparr>,
      \<lparr>ip_prefix = k, region = r, service = ''AMAZON''\<rparr>,
      \<lparr>ip_prefix = k, region = r, service = ''S3''\<rparr>]"

definition demo_heap :: heap where
  "demo_heap =
     \<lparr>cells = (\<lambda>_. [])(0 := [''us-east-1'', ''us-east-1''], 1 := [''AMAZON'', ''S3'']),
      next_ref = 2\<rparr>"

definition scenario_index :: RegionServiceIndex where
  "scenario_index = [''us-east-1'' \<mapsto> {''EC2''}, ''eu-west-1'' \<mapsto> {''S3''}]"

definition scenario_policy :: FilterPolicy where
  "scenario_policy = \<lparr>includes_opt = [], excludes_opt = [], regions_opt = [''us-east-1'']\<rparr>"

text \<open>A client that accepts every request, and one that answers every region request with
  an error status and an error body.\<close>

definition accepting_api :: api where
  "accepting_api hist req = \<lparr>ok = True, body = JsonWithId (''id-'' @ short_name req)\<rparr>"


section \<open>The invariant of the first loop of merge_prefixes\<close>

text \<open>
  After the records \<open>seen\<close>: both dictionaries have exactly the prefixes seen as keys; the
  list under a prefix holds the regions (services) of the records of that prefix, in order;
  distinct keys hold distinct list objects, and no object is in both dictionaries.
\<close>

definition accumulated :: "RawPrefixRecord list \<Rightarrow> dict \<times> dict \<times> heap \<Rightarrow> bool" where
  "accumulated seen st \<longleftrightarrow>
     (case st of (regions, services, h) \<Rightarrow>
        (\<forall>k. (regions k = None \<longleftrightarrow> (\<forall>q\<in>set seen. ip_prefix q \<noteq> k)) \<and>
             (services k = None \<longleftrightarrow> (\<forall>q\<in>set seen. ip_prefix q \<noteq> k))) \<and>
        (\<forall>k a. regions k = Some a \<longrightarrow>
             a < next_ref h \<and> cells h a = map region (filter (\<lambda>p. ip_prefix p = k) seen)) \<and>
        (\<forall>k a. services k = Some a \<longrightarrow>
             a < next_ref h \<and> cells h a = map service (filter (\<lambda>p. ip_prefix p = k) seen)) \<and>
        (\<forall>k k' a. regions k = Some a \<longrightarrow> regions k' = Some a \<longrightarrow> k = k') \<and>
        (\<forall>k k' a. services k = Some a \<longrightarrow> services k' = Some a \<longrightarrow> k = k') \<and>
        (\<forall>k k' a. regions k = Some a \<longrightarrow> services k' \<noteq> Some a))"

section \<open>Evaluation and the predicates in closed form\<close>

lemmas eval_defs =
  annotations_def merge_prefixes_def setdefault_def new_list_def list_append_def
  empty_heap_def no_filters_def valid_region_def valid_service_def filter_amazon_def

lemma valid_region_loop_eq:
  "valid_region_loop allowed rs = (if \<exists>r\<in>set rs. r \<in> set allowed then PyTrue else PyNone)"
  by (induction allowed) auto

lemma valid_service_includes_eq:
  "valid_service_includes incs ss = (if \<exists>s\<in>set ss. s \<in> set incs then PyTrue else PyNone)"
  by (induction incs) auto

lemma valid_service_excludes_eq:
  "valid_service_excludes excs incs ss =
     (if \<exists>s\<in>set ss. s \<in> set excs then PyFalse
      else if incs = [] then PyTrue
      else valid_service_includes incs ss)"
  by (induction excs) auto

lemma list_remove_first_occurrence:
  "x \<in> set xs \<Longrightarrow>
     \<exists>pre post. xs = pre @ x # post \<and> x \<notin> set pre \<and> list_remove x xs = Inr (pre @ post)"
proof (induction xs)
  case Nil
  then show ?case by simp
next
  case (Cons y ys)
  show ?case
  proof (cases "y = x")
    case True
    then have "y # ys = [] @ x # ys \<and> x \<notin> set [] \<and> list_remove x (y # ys) = Inr ([] @ ys)"
      by simp
    then show ?thesis by blast
  next
    case False
    with Cons.prems have "x \<in> set ys" by simp
    from Cons.IH [OF this] obtain pre post
      where ys: "ys = pre @ x # post" and pre: "x \<notin> set pre"
        and rm: "list_remove x ys = Inr (pre @ post)"
      by blast
    from False ys pre rm
    have "y # ys = (y # pre) @ x # post \<and> x \<notin> set (y # pre)
        \<and> list_remove x (y # ys) = Inr ((y # pre) @ post)"
      by auto
    then show ?thesis by blast
  qed
qed

section \<open>merge_prefixes: what the first loop builds\<close>

lemma accumulated_start: "accumulated [] (Map.empty, Map.empty, empty_heap)"
  by (simp add: accumulated_def)

lemma absorb_new:
  assumes "regions (ip_prefix p) = None" and "services (ip_prefix p) = None"
  shows "absorb p (regions, services, h) =
     (regions(ip_prefix p \<mapsto> next_ref h),
      services(ip_prefix p \<mapsto> Suc (next_ref h)),
      \<lparr>cells = (cells h)(next_ref h := [region p], Suc (next_ref h) := [service p]),
       next_ref = Suc (Suc (next_ref h))\<rparr>)"
  using assms by (simp add: setdefault_def new_list_def list_append_def)

lemma absorb_old:
  assumes "regions (ip_prefix p) = Some a" and "services (ip_prefix p) = Some b" and "a \<noteq> b"
  shows "absorb p (regions, services, h) =
     (regions, services,
      h\<lparr>cells := (cells h)(a := cells h a @ [region p], b := cells h b @ [service p])\<rparr>)"
  using assms by (auto simp add: setdefault_def list_append_def fun_upd_idem_iff)

lemma accumulatedI:
  assumes "\<And>k. (regions k = None) = ((\<forall>q\<in>set seen. ip_prefix q \<noteq> k))"
    and "\<And>k. (services k = None) = ((\<forall>q\<in>set seen. ip_prefix q \<noteq> k))"
    and "\<And>k a. regions k = Some a \<Longrightarrow> a < next_ref h"
    and "\<And>k a. regions k = Some a \<Longrightarrow>
           cells h a = map region (filter (\<lambda>p. ip_prefix p = k) seen)"
    and "\<And>k a. services k = Some a \<Longrightarrow> a < next_ref h"
    and "\<And>k a. services k = Some a \<Longrightarrow>
           cells h a = map service (filter (\<lambda>p. ip_prefix p = k) seen)"
    and "\<And>k k' a. regions k = Some a \<Longrightarrow> regions k' = Some a \<Longrightarrow> k = k'"
    and "\<And>k k' a. services k = Some a \<Longrightarrow> services k' = Some a \<Longrightarrow> k = k'"
    and "\<And>k k' a. regions k = Some a \<Longrightarrow> services k' \<noteq> Some a"
  shows "accumulated seen (regions, services, h)"
  unfolding accumulated_def prod.case
  by (intro conjI allI impI) (simp_all only: assms simp_thms)

lemma accumulatedD:
  assumes "accumulated seen (regions, services, h)"
  shows "(regions k = None) = ((\<forall>q\<in>set seen. ip_prefix q \<noteq> k))"
    and "(services k = None) = ((\<forall>q\<in>set seen. ip_prefix q \<noteq> k))"
    and "regions k = Some a \<Longrightarrow> a < next_ref h"
    and "regions k = Some a \<Longrightarrow>
           cells h a = map region (filter (\<lambda>p. ip_prefix p = k) seen)"
    and "services k = Some a \<Longrightarrow> a < next_ref h"
    and "services k = Some a \<Longrightarrow>
           cells h a = map service (filter (\<lambda>p. ip_prefix p = k) seen)"
    and "regions k = Some a \<Longrightarrow> regions k' = Some a \<Longrightarrow> k = k'"
    and "services k = Some a \<Longrightarrow> services k' = Some a \<Longrightarrow> k = k'"
    and "regions k = Some a \<Longrightarrow> services k' \<noteq> Some a"
proof -
  from assms have inv:
    "(\<forall>k. (regions k = None) = (\<forall>q\<in>set seen. ip_prefix q \<noteq> k) \<and>
          (services k = None) = (\<forall>q\<in>set seen. ip_prefix q \<noteq> k)) \<and>
     (\<forall>k a. regions k = Some a \<longrightarrow>
          a < next_ref h \<and> cells h a = map region (filter (\<lambda>p. ip_prefix p = k) seen)) \<and>
     (\<forall>k a. services k = Some a \<longrightarrow>
          a < next_ref h \<and> cells h a = map service (filter (\<lambda>p. ip_prefix p = k) seen)) \<and>
     (\<forall>k k' a. regions k = Some a \<longrightarrow> regions k' = Some a \<longrightarrow> k = k') \<and>
     (\<forall>k k' a. services k = Some a \<longrightarrow> services k' = Some a \<longrightarrow> k = k') \<and>
     (\<forall>k k' a. regions k = Some a \<longrightarrow> services k' \<noteq> Some a)"
    unfolding accumulated_def prod.case .
  note d = inv [THEN conjunct1]
  note r = inv [THEN conjunct2, THEN conjunct1]
  note s = inv [THEN conjunct2, THEN conjunct2, THEN conjunct1]
  note ir = inv [THEN conjunct2, THEN conjunct2, THEN conjunct2, THEN conjunct1]
  note isv = inv [THEN conjunct2, THEN conjunct2, THEN conjunct2, THEN conjunct2, THEN conjunct1]
  note x = inv [THEN conjunct2, THEN conjunct2, THEN conjunct2, THEN conjunct2, THEN conjunct2]
  from d [rule_format, of k] show "(regions k = None) = (\<forall>q\<in>set seen. ip_prefix q \<noteq> k)"
    and "(services k = None) = (\<forall>q\<in>set seen. ip_prefix q \<noteq> k)"
    by simp_all
  from r [rule_format, of k a] show "regions k = Some a \<Longrightarrow> a < next_ref h"
    and "regions k = Some a \<Longrightarrow>
           cells h a = map region (filter (\<lambda>p. ip_prefix p = k) seen)"
    by simp_all
  from s [rule_format, of k a] show "services k = Some a \<Longrightarrow> a < next_ref h"
    and "services k = Some a \<Longrightarrow>
           cells h a = map service (filter (\<lambda>p. ip_prefix p = k) seen)"
    by simp_all
  from ir [rule_format, of k a k']
  show "regions k = Some a \<Longrightarrow> regions k' = Some a \<Longrightarrow> k = k'" .
  from isv [rule_format, of k a k']
  show "services k = Some a \<Longrightarrow> services k' = Some a \<Longrightarrow> k = k'" .
  from x [rule_format, of k a k']
  show "regions k = Some a \<Longrightarrow> services k' \<noteq> Some a" .
qed

lemma accumulated_absorb_new:
  assumes inv: "accumulated seen (regions, services, h)"
    and rn: "regions (ip_prefix p) = None"
  shows "accumulated (seen @ [p]) (absorb p (regions, services, h))"
proof -
  note D = accumulatedD [OF inv]
  from rn D(1) [of "ip_prefix p"] have notin: "\<forall>q\<in>set seen. ip_prefix q \<noteq> ip_prefix p"
    by simp
  with D(2) [of "ip_prefix p"] have sn: "services (ip_prefix p) = None" by simp
  from notin have fresh: "filter (\<lambda>q. ip_prefix q = ip_prefix p) seen = []"
    by (simp add: filter_empty_conv)
  show ?thesis
    unfolding absorb_new [of regions p services h, OF rn sn]
  proof (rule accumulatedI)
    fix k
    show "((regions(ip_prefix p \<mapsto> next_ref h)) k = None) = ((\<forall>q\<in>set (seen @ [p]). ip_prefix q \<noteq> k))"
      using D(1) [of k] by auto
    show "((services(ip_prefix p \<mapsto> Suc (next_ref h))) k = None)
        = ((\<forall>q\<in>set (seen @ [p]). ip_prefix q \<noteq> k))"
      using D(2) [of k] by auto
  next
    fix k a assume "(regions(ip_prefix p \<mapsto> next_ref h)) k = Some a"
    then have c: "k = ip_prefix p \<and> a = next_ref h \<or> k \<noteq> ip_prefix p \<and> regions k = Some a"
      by (auto split: if_splits)
    then show "a < next_ref \<lparr>cells = (cells h)(next_ref h := [region p], Suc (next_ref h) := [service p]),
       next_ref = Suc (Suc (next_ref h))\<rparr>"
      using D(3) [of k a] by auto
    from c show "cells \<lparr>cells = (cells h)(next_ref h := [region p], Suc (next_ref h) := [service p]),
       next_ref = Suc (Suc (next_ref h))\<rparr> a = map region (filter (\<lambda>q. ip_prefix q = k) (seen @ [p]))"
      using D(3) [of k a] D(4) [of k a] fresh by auto
  next
    fix k a assume "(services(ip_prefix p \<mapsto> Suc (next_ref h))) k = Some a"
    then have c: "k = ip_prefix p \<and> a = Suc (next_ref h) \<or> k \<noteq> ip_prefix p \<and> services k = Some a"
      by (auto split: if_splits)
    then show "a < next_ref \<lparr>cells = (cells h)(next_ref h := [region p], Suc (next_ref h) := [service p]),
       next_ref = Suc (Suc (next_ref h))\<rparr>"
      using D(5) [of k a] by auto
    from c show "cells \<lparr>cells = (cells h)(next_ref h := [region p], Suc (next_ref h) := [service p]),
       next_ref = Suc (Suc (next_ref h))\<rparr> a = map service (filter (\<lambda>q. ip_prefix q = k) (seen @ [p]))"
      using D(5) [of k a] D(6) [of k a] fresh by auto
  next
    fix k k' a
    assume "(regions(ip_prefix p \<mapsto> next_ref h)) k = Some a"
      and "(regions(ip_prefix p \<mapsto> next_ref h)) k' = Some a"
    then show "k = k'"
      using D(3) [of k a] D(3) [of k' a] D(7) [of k a k'] by (auto split: if_splits)
  next
    fix k k' a
    assume "(services(ip_prefix p \<mapsto> Suc (next_ref h))) k = Some a"
      and "(services(ip_prefix p \<mapsto> Suc (next_ref h))) k' = Some a"
    then show "k = k'"
      using D(5) [of k a] D(5) [of k' a] D(8) [of k a k'] by (auto split: if_splits)
  next
    fix k k' a
    assume "(regions(ip_prefix p \<mapsto> next_ref h)) k = Some a"
    then show "(services(ip_prefix p \<mapsto> Suc (next_ref h))) k' \<noteq> Some a"
      using D(3) [of k a] D(5) [of k' a] D(9) [of k a k'] by (auto split: if_splits)
  qed
qed

lemma accumulated_absorb_old:
  assumes inv: "accumulated seen (regions, services, h)"
    and rs: "regions (ip_prefix p) = Some a"
  shows "accumulated (seen @ [p]) (absorb p (regions, services, h))"
proof -
  note D = accumulatedD [OF inv]
  from rs D(1) [of "ip_prefix p"] have old: "\<not> (\<forall>q\<in>set seen. ip_prefix q \<noteq> ip_prefix p)"
    by simp
  with D(2) [of "ip_prefix p"] obtain b where sb: "services (ip_prefix p) = Some b"
    by (cases "services (ip_prefix p)") auto
  from rs sb D(9) [of "ip_prefix p" a "ip_prefix p"] have ne: "a \<noteq> b" by auto
  let ?h = "h\<lparr>cells := (cells h)(a := cells h a @ [region p], b := cells h b @ [service p])\<rparr>"
  show ?thesis
    unfolding absorb_old [of regions p a services b h, OF rs sb ne]
  proof (rule accumulatedI)
    fix k
    show "(regions k = None) = ((\<forall>q\<in>set (seen @ [p]). ip_prefix q \<noteq> k))"
      using D(1) [of k] old by auto
    show "(services k = None) = ((\<forall>q\<in>set (seen @ [p]). ip_prefix q \<noteq> k))"
      using D(2) [of k] old by auto
  next
    fix k c assume r: "regions k = Some c"
    then show "c < next_ref ?h" using D(3) [of k c] by simp
    from r have "c \<noteq> b" using D(9) [of k c "ip_prefix p"] sb by auto
    moreover from r have "c = a \<longleftrightarrow> k = ip_prefix p"
      using D(7) [of k c "ip_prefix p"] rs by auto
    ultimately show "cells ?h c = map region (filter (\<lambda>q. ip_prefix q = k) (seen @ [p]))"
      using D(4) [of k c] r by auto
  next
    fix k c assume s: "services k = Some c"
    then show "c < next_ref ?h" using D(5) [of k c] by simp
    from s have "c \<noteq> a" using D(9) [of "ip_prefix p" a k] rs by auto
    moreover from s have "c = b \<longleftrightarrow> k = ip_prefix p"
      using D(8) [of k c "ip_prefix p"] sb by auto
    ultimately show "cells ?h c = map service (filter (\<lambda>q. ip_prefix q = k) (seen @ [p]))"
      using D(6) [of k c] s by auto
  next
    fix k k' c assume "regions k = Some c" and "regions k' = Some c"
    then show "k = k'" by (rule D(7))
  next
    fix k k' c assume "services k = Some c" and "services k' = Some c"
    then show "k = k'" by (rule D(8))
  next
    fix k k' c assume "regions k = Some c"
    then show "services k' \<noteq> Some c" by (rule D(9))
  qed
qed

lemma accumulated_absorb:
  assumes "accumulated seen st"
  shows "accumulated (seen @ [p]) (absorb p st)"
proof -
  obtain regions services h where st: "st = (regions, services, h)"
    by (cases st) auto
  show ?thesis
  proof (cases "regions (ip_prefix p)")
    case None
    with assms show ?thesis unfolding st by (rule accumulated_absorb_new)
  next
    case (Some a)
    with assms show ?thesis unfolding st by (rule accumulated_absorb_old)
  qed
qed

lemma accumulated_accumulate:
  "accumulated seen st \<Longrightarrow> accumulated (seen @ ps) (accumulate ps st)"
proof (induction ps arbitrary: seen st)
  case Nil
  then show ?case by simp
next
  case (Cons p ps)
  from Cons.prems have "accumulated (seen @ [p]) (absorb p st)"
    by (rule accumulated_absorb)
  from Cons.IH [OF this] show ?case by simp
qed

lemma emit_total:
  assumes "\<forall>p\<in>set ps. regions (ip_prefix p) \<noteq> None \<and> services (ip_prefix p) \<noteq> None"
  shows "emit regions services ps merged =
     Inr (merged @ map (\<lambda>p. (ip_prefix p, the (regions (ip_prefix p)), the (services (ip_prefix p)))) ps)"
  using assms
proof (induction ps arbitrary: merged)
  case Nil
  then show ?case by simp
next
  case (Cons p ps)
  from Cons.prems obtain a b
    where ab: "regions (ip_prefix p) = Some a" "services (ip_prefix p) = Some b"
    by auto
  have "emit regions services ps (merged @ [(ip_prefix p, a, b)]) =
     Inr ((merged @ [(ip_prefix p, a, b)]) @
       map (\<lambda>p. (ip_prefix p, the (regions (ip_prefix p)), the (services (ip_prefix p)))) ps)"
    using Cons.prems by (intro Cons.IH) simp
  with ab show ?case by simp
qed

text \<open>The complete lists of a prefix, in feed order.\<close>

lemma merge_prefixes_spec:
  "\<exists>merged h. merge_prefixes payload = Inr (merged, h) \<and>
     map (\<lambda>(k, rs, ss). (k, cells h rs, cells h ss)) merged =
     map (\<lambda>p. (ip_prefix p,
                map region (filter (\<lambda>q. ip_prefix q = ip_prefix p) payload),
                map service (filter (\<lambda>q. ip_prefix q = ip_prefix p) payload))) payload"
proof -
  obtain regions services h
    where acc: "accumulate payload (Map.empty, Map.empty, empty_heap) = (regions, services, h)"
    by (cases "accumulate payload (Map.empty, Map.empty, empty_heap)") auto
  have inv: "accumulated payload (regions, services, h)"
    using accumulated_accumulate [OF accumulated_start, of payload] acc by simp
  note D = accumulatedD [OF inv]
  have present: "regions (ip_prefix p) \<noteq> None \<and> services (ip_prefix p) \<noteq> None"
    if "p \<in> set payload" for p
    using that D(1) [of "ip_prefix p"] D(2) [of "ip_prefix p"] by auto
  let ?merged = "map (\<lambda>p. (ip_prefix p, the (regions (ip_prefix p)), the (services (ip_prefix p)))) payload"
  have em: "emit regions services payload [] = Inr ?merged"
    using emit_total [of payload regions services "[]"] present by simp
  have res: "merge_prefixes payload = Inr (?merged, h)"
    by (simp add: merge_prefixes_def acc em)
  have "map (\<lambda>(k, rs, ss). (k, cells h rs, cells h ss)) ?merged =
     map (\<lambda>p. (ip_prefix p,
                map region (filter (\<lambda>q. ip_prefix q = ip_prefix p) payload),
                map service (filter (\<lambda>q. ip_prefix q = ip_prefix p) payload))) payload"
  proof (simp, intro ballI conjI)
    fix p assume "p \<in> set payload"
    from present [OF this] obtain a b
      where ab: "regions (ip_prefix p) = Some a" "services (ip_prefix p) = Some b" by auto
    from ab D(4) [of "ip_prefix p" a]
    show "cells h (the (regions (ip_prefix p))) =
        map region (filter (\<lambda>q. ip_prefix q = ip_prefix p) payload)" by simp
    from ab D(6) [of "ip_prefix p" b]
    show "cells h (the (services (ip_prefix p))) =
        map service (filter (\<lambda>q. ip_prefix q = ip_prefix p) payload)" by simp
  qed
  with res show ?thesis by blast
qed

section \<open>create_scopes: the predicates and the calls of the two loops\<close>

lemmas scope_defs =
  create_scopes_def create_service_scope_def create_region_scope_def
  create_component_scope_def post_def start_def json_id_def
  scopes_valid_region_def scopes_valid_service_def

lemma scopes_valid_region_loop_eq:
  "scopes_valid_region_loop xs r = (if r \<in> set xs then PyTrue else PyNone)"
  by (induction xs) auto

lemma scopes_valid_service_includes_eq:
  "scopes_valid_service_includes incs s = (if s \<in> set incs then PyTrue else PyNone)"
  by (induction incs) auto

lemma scopes_valid_service_excludes_eq:
  "scopes_valid_service_excludes excs incs s =
     (if s \<in> set excs then PyFalse
      else if incs = [] then PyTrue
      else scopes_valid_service_includes incs s)"
  by (induction excs) auto

lemma scopes_valid_region_iff:
  "truthy (scopes_valid_region pol r) \<longleftrightarrow> regions_opt pol = [] \<or> r \<in> set (regions_opt pol)"
  by (simp add: scopes_valid_region_def scopes_valid_region_loop_eq)

lemma scopes_valid_service_iff:
  "truthy (scopes_valid_service pol s) \<longleftrightarrow>
     s \<notin> set (excludes_opt pol) \<and> (includes_opt pol = [] \<or> s \<in> set (includes_opt pol))"
  by (simp add: scopes_valid_service_def scopes_valid_service_excludes_eq
      scopes_valid_service_includes_eq)

lemma request_fields:
  "query_field (service_request root) = ''user_SaaS Provider''"
  "short_name (service_request root) = ''AWS''"
  "query_field (region_request sid r) = ''user_SaaS Region''"
  "short_name (region_request sid r) = r"
  "query_type (region_request sid r) = ''eq''"
  "query_value (region_request sid r) = r"
  "query_field (component_request rid s) = ''user_SaaS Component''"
  "short_name (component_request rid s) = s"
  "query_type (component_request rid s) = ''eq''"
  "query_value (component_request rid s) = s"
  by (simp_all add: service_request_def region_request_def component_request_def)


lemma create_component_scope_eq:
  "create_component_scope client rid s w = w\<lparr>calls := calls w @ [component_request rid s]\<rparr>"
  by (simp add: create_component_scope_def post_def)

lemma component_loop_eq:
  "component_loop client pol rid ss w =
     w\<lparr>calls := calls w @ map (component_request rid)
                   (filter (\<lambda>s. truthy (scopes_valid_service pol s)) ss),
       printed := printed w @ map (\<lambda>s. '' '' @ s)
                   (filter (\<lambda>s. truthy (scopes_valid_service pol s)) ss)\<rparr>"
  by (induction ss arbitrary: w) (simp_all add: create_component_scope_eq)

lemma create_region_scope_eq:
  "create_region_scope client sid r w =
     (json_id (client (calls w) (region_request sid r)),
      w\<lparr>calls := calls w @ [region_request sid r]\<rparr>)"
  by (simp add: create_region_scope_def post_def)

lemma create_service_scope_eq:
  "create_service_scope client root w =
     (json_id (client (calls w) (service_request root)),
      w\<lparr>calls := calls w @ [service_request root]\<rparr>)"
  by (simp add: create_service_scope_def post_def)





text \<open>Whatever holds of the calls made so far, of every region request for an accepted
  region and of every component request for an accepted service, holds of all calls of
  the loop.\<close>

lemma region_loop_calls_inv:
  assumes reg: "\<And>r. truthy (scopes_valid_region pol r) \<Longrightarrow> P (region_request sid r)"
    and cmp: "\<And>rid s. truthy (scopes_valid_service pol s) \<Longrightarrow> P (component_request rid s)"
    and before: "\<forall>req\<in>set (calls w). P req"
  shows "\<forall>req\<in>set (calls (snd (region_loop client pol sid items w))). P req"
  using before
proof (induction items arbitrary: w)
  case Nil
  then show ?case by simp
next
  case (Cons item items)
  obtain r ss where item: "item = (r, ss)" by (cases item) auto
  show ?case
  proof (cases "truthy (scopes_valid_region pol r)")
    case False
    with Cons show ?thesis unfolding item by simp
  next
    case True
    show ?thesis
    proof (cases "json_id (client (calls w) (region_request sid r))")
      case (Inl e)
      with True Cons.prems reg [OF True] show ?thesis
        unfolding item by (simp add: create_region_scope_eq)
    next
      case (Inr rid)
      let ?w = "component_loop client pol rid ss
          (w\<lparr>printed := printed w @ [r], calls := calls w @ [region_request sid r]\<rparr>)"
      have "\<forall>req\<in>set (calls ?w). P req"
        using Cons.prems reg [OF True] cmp
        by (auto simp add: component_loop_eq)
      from Cons.IH [OF this] True Inr show ?thesis
        unfolding item by (simp add: create_region_scope_eq)
    qed
  qed
qed

lemma create_scopes_calls_allowed:
  "\<forall>req\<in>set (calls (snd (create_scopes client pol root items start))).
      (query_field req = ''user_SaaS Provider'' \<or> query_field req = ''user_SaaS Region'' \<or>
       query_field req = ''user_SaaS Component'') \<and>
      (query_field req = ''user_SaaS Region'' \<longrightarrow>
         regions_opt pol = [] \<or> short_name req \<in> set (regions_opt pol)) \<and>
      (query_field req = ''user_SaaS Component'' \<longrightarrow>
         short_name req \<notin> set (excludes_opt pol) \<and>
         (includes_opt pol = [] \<or> short_name req \<in> set (includes_opt pol)))"
  (is "\<forall>req\<in>_. ?P req")
proof (cases "json_id (client [] (service_request root))")
  case (Inl e)
  then show ?thesis
    by (simp add: create_scopes_def create_service_scope_eq start_def request_fields)
next
  case (Inr sid)
  have reg: "?P (region_request sid r)" if "truthy (scopes_valid_region pol r)" for r
    using that by (simp add: request_fields scopes_valid_region_iff)
  have cmp: "?P (component_request rid s)" if "truthy (scopes_valid_service pol s)" for rid s
    using that by (simp add: request_fields scopes_valid_service_iff)
  have before: "\<forall>req\<in>set (calls (start\<lparr>calls := calls start @ [service_request root]\<rparr>)). ?P req"
    by (simp add: start_def request_fields)
  from region_loop_calls_inv [of pol ?P sid _ client items, OF reg cmp before] Inr
  show ?thesis
    by (simp add: create_scopes_def create_service_scope_eq start_def)
qed

text \<open>The command as click runs it never reaches the body of \<open>create_scopes\<close>: it raises
  \<open>TypeError\<close> and makes no request.\<close>

lemma create_scopes_command_raises:
  "create_scopes_command client pol root items w = (Inl TypeError, w)"
  by (simp add: create_scopes_command_def click_invoke_def)

text \<open>The iteration orders of an index with two regions of one service each.\<close>

lemma distinct_singleton:
  assumes "distinct xs" and "set xs = {x}"
  shows "xs = [x]"
proof -
  from assms have "length xs = 1"
    using distinct_card [of xs] by simp
  then obtain y where "xs = [y]"
    by (cases xs) auto
  with assms(2) show ?thesis by simp
qed

lemma two_region_iterations:
  assumes ne: "k1 \<noteq> k2"
    and it: "iteration_of [k1 \<mapsto> {v1}, k2 \<mapsto> {v2}] items"
  shows "items = [(k1, [v1]), (k2, [v2])] \<or> items = [(k2, [v2]), (k1, [v1])]"
proof -
  let ?idx = "[k1 \<mapsto> {v1}, k2 \<mapsto> {v2}]"
  from it have dist: "distinct (map fst items)"
    by (simp add: iteration_of_def)
  from it have "set (map fst items) = dom ?idx"
    by (simp add: iteration_of_def)
  then have keys: "set (map fst items) = {k1, k2}"
    by auto
  from it have vals: "\<forall>(r, ss) \<in> set items. distinct ss \<and> ?idx r = Some (set ss)"
    by (simp add: iteration_of_def)
  from ne have "card {k1, k2} = 2" by simp
  with dist keys have "length (map fst items) = 2"
    using distinct_card [of "map fst items"] by simp
  then have "length items = Suc (Suc 0)" by simp
  then obtain a b where items: "items = [a, b]"
    by (auto simp add: length_Suc_conv)
  obtain r1 s1 r2 s2 where ab: "a = (r1, s1)" "b = (r2, s2)"
    by (cases a, cases b) blast
  from vals items ab
  have v1: "distinct s1" "?idx r1 = Some (set s1)"
    and v2: "distinct s2" "?idx r2 = Some (set s2)"
    by simp_all
  from keys items ab have "{r1, r2} = {k1, k2}" by simp
  then have "r1 = k1 \<and> r2 = k2 \<or> r1 = k2 \<and> r2 = k1"
    by (simp add: doubleton_eq_iff)
  then show ?thesis
  proof
    assume r: "r1 = k1 \<and> r2 = k2"
    with v1 v2 ne have "set s1 = {v1}" "set s2 = {v2}"
      by simp_all
    with v1 v2 have "s1 = [v1]" "s2 = [v2]"
      by (simp_all add: distinct_singleton)
    with r items ab show ?thesis by simp
  next
    assume r: "r1 = k2 \<and> r2 = k1"
    with v1 v2 ne have "set s1 = {v2}" "set s2 = {v1}"
      by simp_all
    with v1 v2 have "s1 = [v2]" "s2 = [v1]"
      by (simp_all add: distinct_singleton)
    with r items ab show ?thesis by simp
  qed
qed

lemma scenario_index_iterations:
  assumes "iteration_of scenario_index items"
  shows "items = [(''us-east-1'', [''EC2'']), (''eu-west-1'', [''S3''])] \<or>
         items = [(''eu-west-1'', [''S3'']), (''us-east-1'', [''EC2''])]"
proof -
  have "''us-east-1'' \<noteq> ''eu-west-1''" by simp
  from two_region_iterations [OF this] assms show ?thesis
    unfolding scenario_index_def by blast
qed

lemma scenario_calls_first_order:
  "\<exists>res w. create_scopes client scenario_policy root
       [(''us-east-1'', [''EC2'']), (''eu-west-1'', [''S3''])] start = (res, w) \<and>
     (\<forall>req\<in>set (calls w). short_name req \<noteq> ''eu-west-1'' \<and> short_name req \<noteq> ''S3'' \<and>
        query_value req \<noteq> ''eu-west-1'' \<and> query_value req \<noteq> ''S3'') \<and>
     (body (client []
         \<lparr>short_name = ''AWS'', query_type = ''eq'', query_field = ''user_SaaS Provider'',
          query_value = ''AWS'', parent_app_scope_id = root\<rparr>) = JsonWithId sid \<longrightarrow>
      body (client
         [\<lparr>short_name = ''AWS'', query_type = ''eq'', query_field = ''user_SaaS Provider'',
           query_value = ''AWS'', parent_app_scope_id = root\<rparr>]
         \<lparr>short_name = ''us-east-1'', query_type = ''eq'', query_field = ''user_SaaS Region'',
          query_value = ''us-east-1'', parent_app_scope_id = sid\<rparr>) = JsonWithId rid \<longrightarrow>
        res = Inr () \<and>
        calls w =
          [\<lparr>short_name = ''AWS'', query_type = ''eq'', query_field = ''user_SaaS Provider'',
            query_value = ''AWS'', parent_app_scope_id = root\<rparr>,
           \<lparr>short_name = ''us-east-1'', query_type = ''eq'', query_field = ''user_SaaS Region'',
            query_value = ''us-east-1'', parent_app_scope_id = sid\<rparr>,
           \<lparr>short_name = ''EC2'', query_type = ''eq'', query_field = ''user_SaaS Component'',
            query_value = ''EC2'', parent_app_scope_id = rid\<rparr>])"
  by (cases "body (client [] (service_request root))")
     (auto simp add: scope_defs scenario_policy_def service_request_def region_request_def
        component_request_def split: json_body.splits)

lemma scenario_calls_second_order:
  "\<exists>res w. create_scopes client scenario_policy root
       [(''eu-west-1'', [''S3'']), (''us-east-1'', [''EC2''])] start = (res, w) \<and>
     (\<forall>req\<in>set (calls w). short_name req \<noteq> ''eu-west-1'' \<and> short_name req \<noteq> ''S3'' \<and>
        query_value req \<noteq> ''eu-west-1'' \<and> query_value req \<noteq> ''S3'') \<and>
     (body (client []
         \<lparr>short_name = ''AWS'', query_type = ''eq'', query_field = ''user_SaaS Provider'',
          query_value = ''AWS'', parent_app_scope_id = root\<rparr>) = JsonWithId sid \<longrightarrow>
      body (client
         [\<lparr>short_name = ''AWS'', query_type = ''eq'', query_field = ''user_SaaS Provider'',
           query_value = ''AWS'', parent_app_scope_id = root\<rparr>]
         \<lparr>short_name = ''us-east-1'', query_type = ''eq'', query_field = ''user_SaaS Region'',
          query_value = ''us-east-1'', parent_app_scope_id = sid\<rparr>) = JsonWithId rid \<longrightarrow>
        res = Inr () \<and>
        calls w =
          [\<lparr>short_name = ''AWS'', query_type = ''eq'', query_field = ''user_SaaS Provider'',
            query_value = ''AWS'', parent_app_scope_id = root\<rparr>,
           \<lparr>short_name = ''us-east-1'', query_type = ''eq'', query_field = ''user_SaaS Region'',
            query_value = ''us-east-1'', parent_app_scope_id = sid\<rparr>,
           \<lparr>short_name = ''EC2'', query_type = ''eq'', query_field = ''user_SaaS Component'',
            query_value = ''EC2'', parent_app_scope_id = rid\<rparr>])"
  by (cases "body (client [] (service_request root))")
     (auto simp add: scope_defs scenario_policy_def service_request_def region_request_def
        component_request_def split: json_body.splits)

section \<open>The claims\<close>

lemma scenario_rows:
  "annotations scenario_feed no_filters =
     Inr [(''3.5.0.0/16'', ''AWS'', ''us-east-1'', ''S3''),
          (''3.5.0.0/16'', ''AWS'', ''us-east-1'', ''S3'')]"
  by (simp add: scenario_feed_def eval_defs)

theorem scenario_one_row_counterexample:
  "annotations scenario_feed no_filters \<noteq> Inr [(''3.5.0.0/16'', ''AWS'', ''us-east-1'', ''S3'')]"
  by (simp add: scenario_rows)

text \<open>
  C1, as the code has it: for the feed of scenario 1 (one prefix, one region, services
  \<open>AMAZON\<close> then \<open>S3\<close>) and no include, exclude or region filter, \<open>merge_prefixes\<close> followed
  by the loop of \<open>annotations\<close> produces two rows, one for each record of the feed, and
  both are \<open>("3.5.0.0/16", "AWS", "us-east-1", "S3")\<close>. Nothing removes the duplicate.
\<close>

theorem scenario_two_identical_rows:
  "annotations scenario_feed no_filters =
     Inr [(''3.5.0.0/16'', ''AWS'', ''us-east-1'', ''S3''),
          (''3.5.0.0/16'', ''AWS'', ''us-east-1'', ''S3'')]"
  by (rule scenario_rows)

text \<open>
  C3: the tuples of one prefix hold the same services list, so a removal done by
  \<open>filter_amazon\<close> for one tuple is seen by the later ones. For every feed of three
  records of one prefix \<open>k\<close> and one region \<open>r\<close> with the services \<open>AMAZON\<close>, \<open>AMAZON\<close>,
  \<open>S3\<close> in feed order, and no filter, the three tuples hold the same two list objects and
  the three rows have the components \<open>AMAZON\<close>, \<open>S3\<close>, \<open>S3\<close>, in this order.
\<close>

theorem shared_list_removal_visible:
  "map_sum id (map (\<lambda>(ip, rs, ss). (rs, ss)) \<circ> fst) (merge_prefixes (three_feed k r))
     = Inr [(0, 1), (0, 1), (0, 1)] \<and>
   annotations (three_feed k r) no_filters =
     Inr [(k, ''AWS'', r, ''AMAZON''), (k, ''AWS'', r, ''S3''), (k, ''AWS'', r, ''S3'')]"
  by (simp add: three_feed_def eval_defs)

text \<open>
  C4: \<open>valid_service\<close> on a list of service names is \<open>False\<close> when a name of the list is
  excluded, whatever the includes; otherwise \<open>True\<close> when there are no includes; otherwise
  \<open>True\<close> when a name of the list is included, and \<open>None\<close>, which the caller's \<open>if\<close> takes
  as false, when none is. For the feed of scenario 1 with \<open>S3\<close> excluded no row is
  produced.
\<close>

theorem valid_service_cases:
  "((\<exists>s\<in>set ss. s \<in> set (excludes_opt pol)) \<longrightarrow> valid_service pol ss = PyFalse) \<and>
   (\<not> (\<exists>s\<in>set ss. s \<in> set (excludes_opt pol)) \<and> includes_opt pol = []
      \<longrightarrow> valid_service pol ss = PyTrue) \<and>
   (\<not> (\<exists>s\<in>set ss. s \<in> set (excludes_opt pol)) \<and> includes_opt pol \<noteq> []
      \<and> (\<exists>s\<in>set ss. s \<in> set (includes_opt pol))
      \<longrightarrow> valid_service pol ss = PyTrue) \<and>
   (\<not> (\<exists>s\<in>set ss. s \<in> set (excludes_opt pol)) \<and> includes_opt pol \<noteq> []
      \<and> \<not> (\<exists>s\<in>set ss. s \<in> set (includes_opt pol))
      \<longrightarrow> valid_service pol ss = PyNone \<and> \<not> truthy (valid_service pol ss)) \<and>
   annotations scenario_feed (no_filters\<lparr>excludes_opt := [''S3'']\<rparr>) = Inr []"
proof -
  have "annotations scenario_feed (no_filters\<lparr>excludes_opt := [''S3'']\<rparr>) = Inr []"
    by (simp add: scenario_feed_def eval_defs)
  then show ?thesis
    by (simp add: valid_service_def valid_service_excludes_eq valid_service_includes_eq)
qed

theorem valid_service_cases_witness:
  "valid_service \<lparr>includes_opt = [''EC2''], excludes_opt = [''S3''], regions_opt = []\<rparr>
       [''EC2'', ''S3''] = PyFalse \<and>
   valid_service \<lparr>includes_opt = [], excludes_opt = [''S3''], regions_opt = []\<rparr>
       [''AMAZON''] = PyTrue \<and>
   valid_service \<lparr>includes_opt = [''EC2''], excludes_opt = [''S3''], regions_opt = []\<rparr>
       [''AMAZON'', ''EC2''] = PyTrue \<and>
   \<not> truthy (valid_service \<lparr>includes_opt = [''EC2''], excludes_opt = [''S3''], regions_opt = []\<rparr>
       [''AMAZON''])"
  using
    valid_service_cases [of "[''EC2'', ''S3'']"
      "\<lparr>includes_opt = [''EC2''], excludes_opt = [''S3''], regions_opt = []\<rparr>"]
    valid_service_cases [of "[''AMAZON'']"
      "\<lparr>includes_opt = [], excludes_opt = [''S3''], regions_opt = []\<rparr>"]
    valid_service_cases [of "[''AMAZON'', ''EC2'']"
      "\<lparr>includes_opt = [''EC2''], excludes_opt = [''S3''], regions_opt = []\<rparr>"]
    valid_service_cases [of "[''AMAZON'']"
      "\<lparr>includes_opt = [''EC2''], excludes_opt = [''S3''], regions_opt = []\<rparr>"]
  by simp

text \<open>
  C5: \<open>filter_amazon\<close> never fails, returns the list object it was given and leaves all
  other objects alone. When the list has more than one element and contains \<open>AMAZON\<close>,
  the first occurrence of \<open>AMAZON\<close>, and only that one, is removed; otherwise the list is
  unchanged. So the first element afterwards is \<open>S3\<close> for \<open>["AMAZON", "S3"]\<close> and
  \<open>AMAZON\<close> for \<open>["AMAZON"]\<close>.
\<close>

theorem filter_amazon_removes_one:
  "\<exists>h'. filter_amazon h a = Inr (a, h')
     \<and> (\<forall>b. b \<noteq> a \<longrightarrow> cells h' b = cells h b)
     \<and> (if 1 < length (cells h a) \<and> ''AMAZON'' \<in> set (cells h a)
        then \<exists>pre post. cells h a = pre @ ''AMAZON'' # post \<and> ''AMAZON'' \<notin> set pre
               \<and> cells h' a = pre @ post
        else cells h' a = cells h a)
     \<and> (cells h a = [''AMAZON'', ''S3''] \<longrightarrow> first (cells h' a) = Inr ''S3'')
     \<and> (cells h a = [''AMAZON''] \<longrightarrow> first (cells h' a) = Inr ''AMAZON'')"
proof (cases "1 < length (cells h a) \<and> ''AMAZON'' \<in> set (cells h a)")
  case True
  then obtain pre post
    where split: "cells h a = pre @ ''AMAZON'' # post" and pre: "''AMAZON'' \<notin> set pre"
      and rm: "list_remove ''AMAZON'' (cells h a) = Inr (pre @ post)"
    using list_remove_first_occurrence [of "''AMAZON''" "cells h a"] by blast
  let ?h = "h\<lparr>cells := (cells h)(a := pre @ post)\<rparr>"
  from True rm have res: "filter_amazon h a = Inr (a, ?h)"
    by (simp add: filter_amazon_def)
  have two: "cells h a = [''AMAZON'', ''S3''] \<longrightarrow> first (cells ?h a) = Inr ''S3''"
  proof
    assume eq: "cells h a = [''AMAZON'', ''S3'']"
    with rm have "pre @ post = [''S3'']" by simp
    then show "first (cells ?h a) = Inr ''S3''" by simp
  qed
  from True have one: "cells h a \<noteq> [''AMAZON'']" by auto
  from res split pre two one True show ?thesis by auto
next
  case False
  then have res: "filter_amazon h a = Inr (a, h)"
    unfolding filter_amazon_def by (simp only: if_False)
  from False have "cells h a \<noteq> [''AMAZON'', ''S3'']" by auto
  with res False show ?thesis by auto
qed

theorem filter_amazon_removes_one_witness:
  "\<exists>h'. filter_amazon demo_heap 1 = Inr (1, h')
     \<and> cells h' 0 = [''us-east-1'', ''us-east-1'']
     \<and> cells h' 1 = [''S3'']
     \<and> first (cells h' 1) = Inr ''S3''"
  using filter_amazon_removes_one [of demo_heap 1]
  by (auto simp add: demo_heap_def filter_amazon_def)

text \<open>
  C6: for every feed, \<open>merge_prefixes\<close> returns, without error, as many tuples as the feed
  has records; the tuple at the place of a record carries the record's prefix, the regions
  of all records of that prefix and the services of all records of that prefix, both in
  feed order.
\<close>

theorem merge_prefixes_one_tuple_per_record:
  "\<exists>merged h. merge_prefixes payload = Inr (merged, h) \<and>
     length merged = length payload \<and>
     map (\<lambda>(k, rs, ss). (k, cells h rs, cells h ss)) merged =
     map (\<lambda>p. (ip_prefix p,
                map region (filter (\<lambda>q. ip_prefix q = ip_prefix p) payload),
                map service (filter (\<lambda>q. ip_prefix q = ip_prefix p) payload))) payload"
proof -
  from merge_prefixes_spec [of payload] obtain merged h
    where res: "merge_prefixes payload = Inr (merged, h)"
      and content: "map (\<lambda>(k, rs, ss). (k, cells h rs, cells h ss)) merged =
        map (\<lambda>p. (ip_prefix p,
                map region (filter (\<lambda>q. ip_prefix q = ip_prefix p) payload),
                map service (filter (\<lambda>q. ip_prefix q = ip_prefix p) payload))) payload"
    by blast
  from content have "length merged = length payload"
    by (rule map_eq_imp_length_eq)
  with res content show ?thesis by blast
qed

theorem merge_prefixes_one_tuple_per_record_witness:
  "\<exists>merged h. merge_prefixes scenario_feed = Inr (merged, h) \<and>
     length merged = 2 \<and>
     map (\<lambda>(k, rs, ss). (k, cells h rs, cells h ss)) merged =
       [(''3.5.0.0/16'', [''us-east-1'', ''us-east-1''], [''AMAZON'', ''S3'']),
        (''3.5.0.0/16'', [''us-east-1'', ''us-east-1''], [''AMAZON'', ''S3''])]"
  using merge_prefixes_one_tuple_per_record [of scenario_feed]
  by (simp add: scenario_feed_def numeral_2_eq_2)

text \<open>
  C7: for every feed and every tuple that \<open>merge_prefixes\<close> returns, the regions list and
  the services list of the tuple have the same length, which is at least 1 and is the
  number of records of the feed with the tuple's prefix.
\<close>

theorem merged_lists_same_length:
  "\<exists>merged h. merge_prefixes payload = Inr (merged, h) \<and>
     (\<forall>(k, rs, ss) \<in> set merged.
        length (cells h rs) = length (cells h ss) \<and>
        1 \<le> length (cells h rs) \<and>
        length (cells h rs) = length (filter (\<lambda>p. ip_prefix p = k) payload))"
proof -
  let ?complete = "\<lambda>p. (ip_prefix p,
      map region (filter (\<lambda>q. ip_prefix q = ip_prefix p) payload),
      map service (filter (\<lambda>q. ip_prefix q = ip_prefix p) payload))"
  from merge_prefixes_spec [of payload] obtain merged h
    where res: "merge_prefixes payload = Inr (merged, h)"
      and content: "map (\<lambda>(k, rs, ss). (k, cells h rs, cells h ss)) merged = map ?complete payload"
    by blast
  have "length (cells h rs) = length (cells h ss) \<and> 1 \<le> length (cells h rs) \<and>
      length (cells h rs) = length (filter (\<lambda>p. ip_prefix p = k) payload)"
    if mem: "(k, rs, ss) \<in> set merged" for k rs ss
  proof -
    from mem have "(k, cells h rs, cells h ss) \<in> set (map (\<lambda>(k, rs, ss). (k, cells h rs, cells h ss)) merged)"
      by force
    with content have "(k, cells h rs, cells h ss) \<in> set (map ?complete payload)"
      by simp
    then obtain p where p: "p \<in> set payload" and k: "k = ip_prefix p"
      and rs: "cells h rs = map region (filter (\<lambda>q. ip_prefix q = ip_prefix p) payload)"
      and ss: "cells h ss = map service (filter (\<lambda>q. ip_prefix q = ip_prefix p) payload)"
      by auto
    from p have "p \<in> set (filter (\<lambda>q. ip_prefix q = ip_prefix p) payload)" by simp
    then have "filter (\<lambda>q. ip_prefix q = ip_prefix p) payload \<noteq> []" by force
    then have "1 \<le> length (filter (\<lambda>q. ip_prefix q = ip_prefix p) payload)"
      by (cases "filter (\<lambda>q. ip_prefix q = ip_prefix p) payload") simp_all
    with k rs ss show ?thesis by simp
  qed
  with res show ?thesis by blast
qed

theorem merged_lists_same_length_witness:
  "\<exists>merged h. merge_prefixes scenario_feed = Inr (merged, h) \<and> merged \<noteq> [] \<and>
     (\<forall>(k, rs, ss) \<in> set merged. length (cells h rs) = 2 \<and> length (cells h ss) = 2)"
  using merged_lists_same_length [of scenario_feed]
  by (simp add: scenario_feed_def eval_defs)

text \<open>
  C8: \<open>valid_region\<close> on a list of region names returns \<open>True\<close> exactly when no region was
  asked for or a name of the list is one of the regions asked for (it returns \<open>None\<close>
  otherwise); with no region asked for, every list passes.
\<close>

theorem valid_region_iff:
  "(valid_region pol rs = PyTrue \<longleftrightarrow>
      regions_opt pol = [] \<or> (\<exists>r\<in>set rs. r \<in> set (regions_opt pol))) \<and>
   (truthy (valid_region pol rs) \<longleftrightarrow> valid_region pol rs = PyTrue) \<and>
   (regions_opt pol = [] \<longrightarrow> truthy (valid_region pol rs))"
  by (simp add: valid_region_def valid_region_loop_eq)

theorem valid_region_iff_witness:
  "valid_region no_filters [''eu-west-1''] = PyTrue \<and>
   truthy (valid_region no_filters [''eu-west-1'']) \<and>
   valid_region scenario_policy [''eu-west-1'', ''us-east-1''] = PyTrue \<and>
   valid_region scenario_policy [''eu-west-1''] \<noteq> PyTrue"
  using valid_region_iff [of no_filters "[''eu-west-1'']"]
    valid_region_iff [of scenario_policy "[''eu-west-1'', ''us-east-1'']"]
    valid_region_iff [of scenario_policy "[''eu-west-1'']"]
  by (simp add: no_filters_def scenario_policy_def)

text \<open>
  C9: with the includes fixed, one more excluded name never turns a failing
  \<open>valid_service\<close> into a passing one: where the predicate passes with the larger
  exclude list, it passes with the smaller one.
\<close>

theorem valid_service_exclude_monotone:
  assumes "set (excludes_opt pol') = insert x (set (excludes_opt pol))"
    and "includes_opt pol' = includes_opt pol"
    and "truthy (valid_service pol' ss)"
  shows "truthy (valid_service pol ss)"
proof -
  from assms(3) have "\<not> (\<exists>s\<in>set ss. s \<in> set (excludes_opt pol'))"
    by (auto simp add: valid_service_def valid_service_excludes_eq split: if_splits)
  with assms(1) have "\<not> (\<exists>s\<in>set ss. s \<in> set (excludes_opt pol))"
    by auto
  with assms show ?thesis
    by (auto simp add: valid_service_def valid_service_excludes_eq split: if_splits)
qed

theorem valid_service_exclude_monotone_witness:
  "truthy (valid_service \<lparr>includes_opt = [''EC2''], excludes_opt = [''S3''], regions_opt = []\<rparr>
       [''AMAZON'', ''EC2'']) \<and>
   truthy (valid_service \<lparr>includes_opt = [''EC2''], excludes_opt = [], regions_opt = []\<rparr>
       [''AMAZON'', ''EC2''])"
proof -
  let ?more = "\<lparr>includes_opt = [''EC2''], excludes_opt = [''S3''], regions_opt = []\<rparr>"
  let ?less = "\<lparr>includes_opt = [''EC2''], excludes_opt = [], regions_opt = []\<rparr>"
  have a: "set (excludes_opt ?more) = insert ''S3'' (set (excludes_opt ?less))" by simp
  have b: "includes_opt ?more = includes_opt ?less" by simp
  have c: "truthy (valid_service ?more [''AMAZON'', ''EC2''])"
    by (simp add: valid_service_def)
  from c valid_service_exclude_monotone [OF a b c] show ?thesis by simp
qed




text \<open>
  C10, for the body of \<open>create_scopes\<close> called with a context (the command as declared
  raises \<open>TypeError\<close> before it, see \<open>create_scopes_command\<close>): every call is a service,
  region or component call; a region call is made only for a region that is wanted (no
  region was asked for, or it is one of those asked for) and a component call only for a
  service that is not excluded and, when services are included, is one of them, whatever
  the client answers. With \<open>us-east-1\<close> the only region asked for and the index
  \<open>{"us-east-1": {"EC2"}, "eu-west-1": {"S3"}}\<close>, in whatever order the index is
  iterated, no call is ever made for \<open>eu-west-1\<close> or \<open>S3\<close>; and when the service call and
  the region call return an \<open>id\<close>, the calls are the service call, one region call, for
  \<open>us-east-1\<close> under the service scope, and one component call, for \<open>EC2\<close> under the
  region scope.
\<close>

theorem scenario_scope_calls:
  "(\<forall>req\<in>set (calls (snd (create_scopes client pol root any_items start))).
      (query_field req = ''user_SaaS Provider'' \<or> query_field req = ''user_SaaS Region'' \<or>
       query_field req = ''user_SaaS Component'') \<and>
      (query_field req = ''user_SaaS Region'' \<longrightarrow>
         regions_opt pol = [] \<or> short_name req \<in> set (regions_opt pol)) \<and>
      (query_field req = ''user_SaaS Component'' \<longrightarrow>
         short_name req \<notin> set (excludes_opt pol) \<and>
         (includes_opt pol = [] \<or> short_name req \<in> set (includes_opt pol)))) \<and>
   (iteration_of scenario_index items \<longrightarrow>
     (\<exists>res w. create_scopes client scenario_policy root items start = (res, w) \<and>
       (\<forall>req\<in>set (calls w). short_name req \<noteq> ''eu-west-1'' \<and> short_name req \<noteq> ''S3'' \<and>
          query_value req \<noteq> ''eu-west-1'' \<and> query_value req \<noteq> ''S3'') \<and>
       (body (client []
           \<lparr>short_name = ''AWS'', query_type = ''eq'', query_field = ''user_SaaS Provider'',
            query_value = ''AWS'', parent_app_scope_id = root\<rparr>) = JsonWithId sid \<longrightarrow>
        body (client
           [\<lparr>short_name = ''AWS'', query_type = ''eq'', query_field = ''user_SaaS Provider'',
             query_value = ''AWS'', parent_app_scope_id = root\<rparr>]
           \<lparr>short_name = ''us-east-1'', query_type = ''eq'', query_field = ''user_SaaS Region'',
            query_value = ''us-east-1'', parent_app_scope_id = sid\<rparr>) = JsonWithId rid \<longrightarrow>
          res = Inr () \<and>
          calls w =
            [\<lparr>short_name = ''AWS'', query_type = ''eq'', query_field = ''user_SaaS Provider'',
              query_value = ''AWS'', parent_app_scope_id = root\<rparr>,
             \<lparr>short_name = ''us-east-1'', query_type = ''eq'', query_field = ''user_SaaS Region'',
              query_value = ''us-east-1'', parent_app_scope_id = sid\<rparr>,
             \<lparr>short_name = ''EC2'', query_type = ''eq'', query_field = ''user_SaaS Component'',
              query_value = ''EC2'', parent_app_scope_id = rid\<rparr>])))"
proof (rule conjI)
  show "\<forall>req\<in>set (calls (snd (create_scopes client pol root any_items start))).
      (query_field req = ''user_SaaS Provider'' \<or> query_field req = ''user_SaaS Region'' \<or>
       query_field req = ''user_SaaS Component'') \<and>
      (query_field req = ''user_SaaS Region'' \<longrightarrow>
         regions_opt pol = [] \<or> short_name req \<in> set (regions_opt pol)) \<and>
      (query_field req = ''user_SaaS Component'' \<longrightarrow>
         short_name req \<notin> set (excludes_opt pol) \<and>
         (includes_opt pol = [] \<or> short_name req \<in> set (includes_opt pol)))"
    by (rule create_scopes_calls_allowed)
next
  show "iteration_of scenario_index items \<longrightarrow>
     (\<exists>res w. create_scopes client scenario_policy root items start = (res, w) \<and>
       (\<forall>req\<in>set (calls w). short_name req \<noteq> ''eu-west-1'' \<and> short_name req \<noteq> ''S3'' \<and>
          query_value req \<noteq> ''eu-west-1'' \<and> query_value req \<noteq> ''S3'') \<and>
       (body (client []
           \<lparr>short_name = ''AWS'', query_type = ''eq'', query_field = ''user_SaaS Provider'',
            query_value = ''AWS'', parent_app_scope_id = root\<rparr>) = JsonWithId sid \<longrightarrow>
        body (client
           [\<lparr>short_name = ''AWS'', query_type = ''eq'', query_field = ''user_SaaS Provider'',
             query_value = ''AWS'', parent_app_scope_id = root\<rparr>]
           \<lparr>short_name = ''us-east-1'', query_type = ''eq'', query_field = ''user_SaaS Region'',
            query_value = ''us-east-1'', parent_app_scope_id = sid\<rparr>) = JsonWithId rid \<longrightarrow>
          res = Inr () \<and>
          calls w =
            [\<lparr>short_name = ''AWS'', query_type = ''eq'', query_field = ''user_SaaS Provider'',
              query_value = ''AWS'', parent_app_scope_id = root\<rparr>,
             \<lparr>short_name = ''us-east-1'', query_type = ''eq'', query_field = ''user_SaaS Region'',
              query_value = ''us-east-1'', parent_app_scope_id = sid\<rparr>,
             \<lparr>short_name = ''EC2'', query_type = ''eq'', query_field = ''user_SaaS Component'',
              query_value = ''EC2'', parent_app_scope_id = rid\<rparr>]))"
  proof
    assume "iteration_of scenario_index items"
    then have "items = [(''us-east-1'', [''EC2'']), (''eu-west-1'', [''S3''])] \<or>
         items = [(''eu-west-1'', [''S3'']), (''us-east-1'', [''EC2''])]"
      by (rule scenario_index_iterations)
    then show "\<exists>res w. create_scopes client scenario_policy root items start = (res, w) \<and>
       (\<forall>req\<in>set (calls w). short_name req \<noteq> ''eu-west-1'' \<and> short_name req \<noteq> ''S3'' \<and>
          query_value req \<noteq> ''eu-west-1'' \<and> query_value req \<noteq> ''S3'') \<and>
       (body (client []
           \<lparr>short_name = ''AWS'', query_type = ''eq'', query_field = ''user_SaaS Provider'',
            query_value = ''AWS'', parent_app_scope_id = root\<rparr>) = JsonWithId sid \<longrightarrow>
        body (client
           [\<lparr>short_name = ''AWS'', query_type = ''eq'', query_field = ''user_SaaS Provider'',
             query_value = ''AWS'', parent_app_scope_id = root\<rparr>]
           \<lparr>short_name = ''us-east-1'', query_type = ''eq'', query_field = ''user_SaaS Region'',
            query_value = ''us-east-1'', parent_app_scope_id = sid\<rparr>) = JsonWithId rid \<longrightarrow>
          res = Inr () \<and>
          calls w =
            [\<lparr>short_name = ''AWS'', query_type = ''eq'', query_field = ''user_SaaS Provider'',
              query_value = ''AWS'', parent_app_scope_id = root\<rparr>,
             \<lparr>short_name = ''us-east-1'', query_type = ''eq'', query_field = ''user_SaaS Region'',
              query_value = ''us-east-1'', parent_app_scope_id = sid\<rparr>,
             \<lparr>short_name = ''EC2'', query_type = ''eq'', query_field = ''user_SaaS Component'',
              query_value = ''EC2'', parent_app_scope_id = rid\<rparr>])"
    proof
      assume "items = [(''us-east-1'', [''EC2'']), (''eu-west-1'', [''S3''])]"
      then show ?thesis
        by (simp only: scenario_calls_first_order [of client root sid rid])
    next
      assume "items = [(''eu-west-1'', [''S3'']), (''us-east-1'', [''EC2''])]"
      then show ?thesis
        by (simp only: scenario_calls_second_order [of client root sid rid])
    qed
  qed
qed

theorem scenario_scope_calls_witness:
  "iteration_of scenario_index [(''eu-west-1'', [''S3'']), (''us-east-1'', [''EC2''])] \<and>
   (\<exists>w. create_scopes accepting_api scenario_policy ''Default''
        [(''eu-west-1'', [''S3'']), (''us-east-1'', [''EC2''])] start = (Inr (), w) \<and>
      calls w =
        [\<lparr>short_name = ''AWS'', query_type = ''eq'', query_field = ''user_SaaS Provider'',
          query_value = ''AWS'', parent_app_scope_id = ''Default''\<rparr>,
         \<lparr>short_name = ''us-east-1'', query_type = ''eq'', query_field = ''user_SaaS Region'',
          query_value = ''us-east-1'', parent_app_scope_id = ''id-AWS''\<rparr>,
         \<lparr>short_name = ''EC2'', query_type = ''eq'', query_field = ''user_SaaS Component'',
          query_value = ''EC2'', parent_app_scope_id = ''id-us-east-1''\<rparr>] \<and>
      (\<forall>req\<in>set (calls w). query_field req = ''user_SaaS Region'' \<longrightarrow>
         short_name req \<in> set (regions_opt scenario_policy)))"
proof -
  let ?items = "[(''eu-west-1'', [''S3'']), (''us-east-1'', [''EC2''])]"
  have it: "iteration_of scenario_index ?items"
    by (auto simp add: iteration_of_def scenario_index_def)
  have a: "body (accepting_api []
      \<lparr>short_name = ''AWS'', query_type = ''eq'', query_field = ''user_SaaS Provider'',
       query_value = ''AWS'', parent_app_scope_id = ''Default''\<rparr>) = JsonWithId ''id-AWS''"
    by (simp add: accepting_api_def)
  have b: "body (accepting_api
      [\<lparr>short_name = ''AWS'', query_type = ''eq'', query_field = ''user_SaaS Provider'',
        query_value = ''AWS'', parent_app_scope_id = ''Default''\<rparr>]
      \<lparr>short_name = ''us-east-1'', query_type = ''eq'', query_field = ''user_SaaS Region'',
       query_value = ''us-east-1'', parent_app_scope_id = ''id-AWS''\<rparr>)
      = JsonWithId ''id-us-east-1''"
    by (simp add: accepting_api_def)
  note inst = scenario_scope_calls [where client = accepting_api and root = "''Default''"
      and sid = "''id-AWS''" and rid = "''id-us-east-1''" and items = ?items
      and pol = scenario_policy and any_items = ?items]
  from inst [THEN conjunct2, THEN mp, OF it] a b
  have run: "\<exists>w. create_scopes accepting_api scenario_policy ''Default'' ?items start = (Inr (), w) \<and>
      calls w =
        [\<lparr>short_name = ''AWS'', query_type = ''eq'', query_field = ''user_SaaS Provider'',
          query_value = ''AWS'', parent_app_scope_id = ''Default''\<rparr>,
         \<lparr>short_name = ''us-east-1'', query_type = ''eq'', query_field = ''user_SaaS Region'',
          query_value = ''us-east-1'', parent_app_scope_id = ''id-AWS''\<rparr>,
         \<lparr>short_name = ''EC2'', query_type = ''eq'', query_field = ''user_SaaS Component'',
          query_value = ''EC2'', parent_app_scope_id = ''id-us-east-1''\<rparr>]"
    by auto
  then obtain w where w: "create_scopes accepting_api scenario_policy ''Default'' ?items start = (Inr (), w)"
    and c: "calls w =
        [\<lparr>short_name = ''AWS'', query_type = ''eq'', query_field = ''user_SaaS Provider'',
          query_value = ''AWS'', parent_app_scope_id = ''Default''\<rparr>,
         \<lparr>short_name = ''us-east-1'', query_type = ''eq'', query_field = ''user_SaaS Region'',
          query_value = ''us-east-1'', parent_app_scope_id = ''id-AWS''\<rparr>,
         \<lparr>short_name = ''EC2'', query_type = ''eq'', query_field = ''user_SaaS Component'',
          query_value = ''EC2'', parent_app_scope_id = ''id-us-east-1''\<rparr>]"
    by blast
  from inst [THEN conjunct1] w
  have "\<forall>req\<in>set (calls w). query_field req = ''user_SaaS Region'' \<longrightarrow>
         short_name req \<in> set (regions_opt scenario_policy)"
    by (auto simp add: scenario_policy_def)
  with it w c show ?thesis by blast
qed

end
